theory Spec2Isabelle
  imports Complex_Main "HOL-Library.Char_ord" "HOL-Library.Sublist"
begin

section \<open>Strings\<close>

text \<open>
  A Python string is modelled as a \<^typ>\<open>string\<close> whose characters are read as the code
  points 0..255.  On that range \<open>str.strip()\<close> removes the characters for which
  \<open>str.isspace\<close> holds and \<open>str.lower()\<close> maps the capital letters of ASCII and of
  Latin-1 to their small forms.
\<close>

definition py_isspace :: "char \<Rightarrow> bool" where
  "py_isspace c =
     (let n = (of_char c :: nat)
      in (9 \<le> n \<and> n \<le> 13) \<or> (28 \<le> n \<and> n \<le> 32) \<or> n = 133 \<or> n = 160)"

definition py_isupper :: "char \<Rightarrow> bool" where
  "py_isupper c =
     (let n = (of_char c :: nat)
      in (65 \<le> n \<and> n \<le> 90) \<or> (192 \<le> n \<and> n \<le> 214) \<or> (216 \<le> n \<and> n \<le> 222))"

definition lower_char :: "char \<Rightarrow> char" where
  "lower_char c = (if py_isupper c then char_of ((of_char c :: nat) + 32) else c)"

definition strip :: "string \<Rightarrow> string" where
  "strip s = rev (dropWhile py_isspace (rev (dropWhile py_isspace s)))"

definition lower :: "string \<Rightarrow> string" where
  "lower s = map lower_char s"

text \<open>
  \<open>re.sub(cls+, repl, s)\<close> for a character class \<open>cls\<close>: scanning from the left, every
  maximal run of characters of the class is replaced by \<open>repl\<close>, every other character
  is copied.
\<close>

function re_sub_runs :: "(char \<Rightarrow> bool) \<Rightarrow> string \<Rightarrow> string \<Rightarrow> string" where
  "re_sub_runs cls repl [] = []"
| "re_sub_runs cls repl (c # cs) =
     (if cls c then repl @ re_sub_runs cls repl (dropWhile cls cs)
      else c # re_sub_runs cls repl cs)"
  by pat_completeness auto
termination
  by (relation "measure (\<lambda>(cls, repl, s). length s)")
     (auto simp: le_imp_less_Suc length_dropWhile_le)

text \<open>The substring test \<open>k in n\<close> of Python, by trying every position of \<open>n\<close>.\<close>

fun str_contains :: "string \<Rightarrow> string \<Rightarrow> bool" where
  "str_contains [] k = (k = [])"
| "str_contains (c # cs) k = (prefix k (c # cs) \<or> str_contains cs k)"

section \<open>Column normalizer\<close>

text \<open>The character class \<open>[a-z0-9]\<close>; the pattern of \<open>normalize\<close> is its complement.\<close>

definition lower_alnum :: "char \<Rightarrow> bool" where
  "lower_alnum c =
     (let n = (of_char c :: nat) in (97 \<le> n \<and> n \<le> 122) \<or> (48 \<le> n \<and> n \<le> 57))"

definition normalize_str :: "string \<Rightarrow> string" where
  "normalize_str s = re_sub_runs (\<lambda>c. \<not> lower_alnum c) [] (lower (strip s))"

section \<open>Column guesser\<close>

text \<open>
  A Python \<open>dict\<close> keeps its keys in insertion order; storing under a key that is already
  present replaces the value and leaves the key where it is.
\<close>

fun dict_set :: "('k \<times> 'v) list \<Rightarrow> 'k \<Rightarrow> 'v \<Rightarrow> ('k \<times> 'v) list" where
  "dict_set [] k v = [(k, v)]"
| "dict_set ((k', v') # d) k v =
     (if k' = k then (k', v) # d else (k', v') # dict_set d k v)"

definition norm_map :: "string list \<Rightarrow> (string \<times> string) list" where
  "norm_map columns = foldl (\<lambda>d c. dict_set d c (normalize_str c)) [] columns"

fun guess_loop :: "string list \<Rightarrow> (string \<times> string) list \<Rightarrow> string option" where
  "guess_loop kws [] = None"
| "guess_loop kws ((c, n) # items) =
     (if list_ex (\<lambda>k. str_contains n k) kws then Some c
      else guess_loop kws items)"

definition guess_column :: "string list \<Rightarrow> string list \<Rightarrow> string option" where
  "guess_column columns kws = guess_loop kws (norm_map columns)"

text \<open>The keyword list the application passes for the role of attempted calls.\<close>

definition call_attempted_keywords :: "string list" where
  "call_attempted_keywords =
     [''attemptedcall'', ''callsattempted'', ''callattempt'', ''dialed'', ''callsdialed'',
      ''attempt'', ''outboundattempt'']"

section \<open>Cells and columns\<close>

text \<open>
  A raw cell of the dataset is missing (\<open>NaN\<close>), a boolean, an integer, a float or a
  string.  A float that is not \<open>NaN\<close> is a finite value, which is a rational number, or
  an infinity.  A column (a pandas \<open>Series\<close> of one dataset) is the list of its cells in
  row order.
\<close>

datatype number = Finite rat | PosInf | NegInf

datatype cell = Missing | BoolV bool | IntV int | FloatV number | StrV string

text \<open>The comparison \<open>x > 0\<close> on such numbers.\<close>

fun gt_zero :: "number \<Rightarrow> bool" where
  "gt_zero (Finite q) = (0 < q)"
| "gt_zero PosInf = True"
| "gt_zero NegInf = False"

text \<open>
  Two operations on floats belong to the libraries under pandas and are parameters of
  the model: \<open>lib_strtod\<close> is the number that the conversion stores for a decimal
  numeral, the 64-bit float of the scanner's arithmetic with its rounding, its underflow
  to zero and its failure when the value is out of range (\<open>None\<close>); \<open>lib_repr\<close> is the
  text of a float.  Every property below holds for all such operations.
\<close>

record float_lib =
  lib_strtod :: "string \<Rightarrow> number option"
  lib_repr :: "number \<Rightarrow> string"

subsection \<open>\<open>pd.to_numeric(s, errors="coerce")\<close>\<close>

text \<open>
  A string is a decimal numeral for the scanner of the reader when it consists of blanks,
  an optional sign, digits with an optional fraction, an optional exponent, blanks, and
  nothing else.  At least one digit is required before the exponent; an \<open>e\<close> that no
  digit follows is not part of the numeral and makes the string unparsable.  The scan
  yields the sign, the digits before the point, and whether the numeral is an integer
  (neither point nor exponent).
\<close>

definition isspace_ascii :: "char \<Rightarrow> bool" where
  "isspace_ascii c = (let n = (of_char c :: nat) in n = 32 \<or> (9 \<le> n \<and> n \<le> 13))"

definition isdigit_ascii :: "char \<Rightarrow> bool" where
  "isdigit_ascii c = (let n = (of_char c :: nat) in 48 \<le> n \<and> n \<le> 57)"

definition digits_value :: "string \<Rightarrow> nat" where
  "digits_value ds = foldl (\<lambda>a c. 10 * a + ((of_char c :: nat) - 48)) 0 ds"

fun take_sign :: "string \<Rightarrow> bool \<times> string" where
  "take_sign [] = (False, [])"
| "take_sign (c # cs) =
     (if c = CHR ''-'' then (True, cs)
      else if c = CHR ''+'' then (False, cs)
      else (False, c # cs))"

definition take_exponent :: "string \<Rightarrow> bool \<times> string" where
  "take_exponent p =
     (case p of
        [] \<Rightarrow> (False, [])
      | c # cs \<Rightarrow>
          if c = CHR ''e'' \<or> c = CHR ''E'' then
            (let (neg, q) = take_sign cs
             in if takeWhile isdigit_ascii q = [] then (False, p)
                else (True, dropWhile isdigit_ascii q))
          else (False, p))"

definition scan_numeral :: "string \<Rightarrow> (bool \<times> string \<times> bool) option" where
  "scan_numeral s =
     (let (neg, p1) = take_sign (dropWhile isspace_ascii s);
          ip = takeWhile isdigit_ascii p1;
          p2 = dropWhile isdigit_ascii p1;
          (point, fp, p3) =
             (case p2 of
                [] \<Rightarrow> (False, [], p2)
              | c # r \<Rightarrow> if c = CHR ''.''
                         then (True, takeWhile isdigit_ascii r, dropWhile isdigit_ascii r)
                         else (False, [], p2))
      in if ip = [] \<and> fp = [] then None
         else (let (expo, p4) = take_exponent p3
               in if dropWhile isspace_ascii p4 \<noteq> [] then None
                  else Some (neg, ip, \<not> point \<and> \<not> expo)))"

text \<open>
  The value of a numeral.  An integer numeral of at most 15 digits is below \<open>2^53\<close>, so
  that no step of the scanner rounds: its value is the integer it spells.  The value of
  every other numeral is the one the scanner's 64-bit arithmetic gives.
\<close>

definition to_double :: "float_lib \<Rightarrow> string \<Rightarrow> number option" where
  "to_double L s =
     (case scan_numeral s of
        None \<Rightarrow> None
      | Some (neg, ip, maybe_int) \<Rightarrow>
          if maybe_int \<and> length ip \<le> 15
          then Some (Finite (of_int (if neg then - int (digits_value ip)
                                     else int (digits_value ip))))
          else lib_strtod L s)"

text \<open>
  A string that is no numeral, or whose value is out of range, is still a number when it
  is one of the six spellings of infinity, in any letter case.
\<close>

definition floatify :: "float_lib \<Rightarrow> string \<Rightarrow> number option" where
  "floatify L s =
     (case to_double L s of
        Some x \<Rightarrow> Some x
      | None \<Rightarrow>
          if lower s \<in> {''inf'', ''+inf'', ''infinity'', ''+infinity''} then Some PosInf
          else if lower s \<in> {''-inf'', ''-infinity''} then Some NegInf
          else None)"

text \<open>
  Cell by cell: a boolean counts as 1 or 0, a number as itself, a string as the number it
  spells; a missing cell, the empty string and every string that spells no number give
  \<open>None\<close> (\<open>NaN\<close>).
\<close>

fun to_numeric_coerce :: "float_lib \<Rightarrow> cell \<Rightarrow> number option" where
  "to_numeric_coerce L Missing = None"
| "to_numeric_coerce L (BoolV b) = Some (Finite (if b then 1 else 0))"
| "to_numeric_coerce L (IntV n) = Some (Finite (of_int n))"
| "to_numeric_coerce L (FloatV x) = Some x"
| "to_numeric_coerce L (StrV s) = (if s = [] then None else floatify L s)"

definition to_numeric :: "float_lib \<Rightarrow> cell list \<Rightarrow> number option list" where
  "to_numeric L s = map (to_numeric_coerce L) s"

definition notna :: "'a option list \<Rightarrow> bool list" where
  "notna s = map (\<lambda>x. x \<noteq> None) s"

definition fillna :: "'a \<Rightarrow> 'a option list \<Rightarrow> 'a list" where
  "fillna d s = map (\<lambda>x. case x of None \<Rightarrow> d | Some v \<Rightarrow> v) s"

subsection \<open>\<open>s.astype(str)\<close>\<close>

fun str_nat :: "nat \<Rightarrow> string" where
  "str_nat n =
     (if n < 10 then [char_of (48 + n)]
      else str_nat (n div 10) @ [char_of (48 + n mod 10)])"

definition str_int :: "int \<Rightarrow> string" where
  "str_int i = (if i < 0 then CHR ''-'' # str_nat (nat (- i)) else str_nat (nat i))"

fun astype_str :: "float_lib \<Rightarrow> cell \<Rightarrow> string" where
  "astype_str L Missing = ''nan''"
| "astype_str L (BoolV b) = (if b then ''True'' else ''False'')"
| "astype_str L (IntV n) = str_int n"
| "astype_str L (FloatV x) = lib_repr L x"
| "astype_str L (StrV s) = s"

section \<open>Signal extractor\<close>

text \<open>
  The column type is \<open>bool\<close> exactly when every cell of the (non-empty) column is a
  boolean; a column with a missing cell among booleans has the type \<open>object\<close>.
\<close>

fun is_bool :: "cell \<Rightarrow> bool" where
  "is_bool (BoolV b) = True"
| "is_bool v = False"

definition dtype_is_bool :: "cell list \<Rightarrow> bool" where
  "dtype_is_bool s = (s \<noteq> [] \<and> list_all is_bool s)"

text \<open>\<open>s.fillna(False)\<close> on a column of booleans, read as a list of truth values.\<close>

definition fillna_False :: "cell list \<Rightarrow> bool list" where
  "fillna_False s = map (\<lambda>v. case v of BoolV b \<Rightarrow> b | _ \<Rightarrow> False) s"

definition true_set :: "string list" where
  "true_set = [''yes'', ''y'', ''true'', ''t'', ''1'', ''connected'', ''done'', ''received'',
               ''delivered'', ''answer'', ''answered'', ''success'']"

definition isin :: "'a list \<Rightarrow> 'a list \<Rightarrow> bool list" where
  "isin s vals = map (\<lambda>x. x \<in> set vals) s"

definition to_bool_series :: "float_lib \<Rightarrow> cell list \<Rightarrow> bool list" where
  "to_bool_series L s =
     (if dtype_is_bool s then fillna_False s
      else (let snum = to_numeric L s
            in if list_ex id (notna snum) then map (\<lambda>x. gt_zero x) (fillna (Finite 0) snum)
               else (let str_vals = map lower (map strip (map (astype_str L) s))
                     in isin str_vals true_set)))"

section \<open>Dataset\<close>

text \<open>
  A \<open>DataFrame\<close> is its number of rows and its labelled columns, in column order.  In a
  well-formed frame the labels are distinct and every column has one cell per row.
\<close>

record dataframe =
  df_len :: nat
  df_cols :: "(string \<times> cell list) list"

definition wf_df :: "dataframe \<Rightarrow> bool" where
  "wf_df df = (distinct (map fst (df_cols df))
               \<and> list_all (\<lambda>lc. length (snd lc) = df_len df) (df_cols df))"

text \<open>\<open>df[label]\<close>; \<open>None\<close> stands for the \<open>KeyError\<close> of an absent label.\<close>

definition df_getitem :: "dataframe \<Rightarrow> string \<Rightarrow> cell list option" where
  "df_getitem df l = map_of (df_cols df) l"

definition df_empty :: "dataframe \<Rightarrow> bool" where
  "df_empty df = (df_len df = 0 \<or> df_cols df = [])"

text \<open>
  \<open>df[keep]\<close> for a boolean series \<open>keep\<close> retains the rows at which it is true;
  \<open>.shape[0]\<close> of the result is its number of rows.
\<close>

definition select_rows :: "dataframe \<Rightarrow> bool list \<Rightarrow> dataframe" where
  "select_rows df keep =
     \<lparr>df_len = length (filter id keep),
      df_cols = map (\<lambda>lc. (fst lc, map snd (filter fst (zip keep (snd lc))))) (df_cols df)\<rparr>"

text \<open>
  \<open>duplicated(keep=False)\<close> marks every row whose value occurs in an earlier or in a
  later row.  Values are compared as Python compares them: \<open>True\<close> equals 1 and
  \<open>False\<close> equals 0, a float equals the integer of the same value, a string never
  equals a number, and missing values count as equal to one another.
\<close>

fun py_key :: "cell \<Rightarrow> cell" where
  "py_key (BoolV b) = IntV (if b then 1 else 0)"
| "py_key (FloatV (Finite q)) = (if of_int \<lfloor>q\<rfloor> = q then IntV \<lfloor>q\<rfloor> else FloatV (Finite q))"
| "py_key v = v"

fun dup_scan :: "'a list \<Rightarrow> 'a list \<Rightarrow> bool list" where
  "dup_scan seen [] = []"
| "dup_scan seen (v # vs) = (v \<in> set seen \<or> v \<in> set vs) # dup_scan (v # seen) vs"

definition duplicated_keep_False :: "cell list \<Rightarrow> bool list" where
  "duplicated_keep_False vals = dup_scan [] (map py_key vals)"

section \<open>Segment calculator\<close>

text \<open>Element-wise operations of boolean series over one index, and the count of \<open>True\<close>.\<close>

definition series_or :: "bool list \<Rightarrow> bool list \<Rightarrow> bool list" where
  "series_or a b = map (\<lambda>(x, y). x \<or> y) (zip a b)"

definition series_and :: "bool list \<Rightarrow> bool list \<Rightarrow> bool list" where
  "series_and a b = map (\<lambda>(x, y). x \<and> y) (zip a b)"

definition series_not :: "bool list \<Rightarrow> bool list" where
  "series_not a = map Not a"

definition series_sum :: "bool list \<Rightarrow> nat" where
  "series_sum a = length (filter id a)"

datatype error =
    EmptyFile
  | PleaseSelect "string list"
  | ErrorInterpretingColumns string
  | KeyError string

text \<open>The twelve entries of \<open>metrics\<close>, in the order of the source.\<close>

record metrics =
  connected_by_either :: nat
  only_connected_on_calls :: nat
  only_connected_on_calls_wa_attempted :: nat
  only_connected_on_whatsapp :: nat
  connected_on_both :: nat
  no_wa_and_calls_attempted :: nat
  no_calls_attempted :: nat
  no_calls_but_wa_attempted :: nat
  no_wa_attempted :: nat
  no_wa_but_calls_attempted :: nat
  total_leads :: nat
  duplicate_leads :: nat

text \<open>The guarded block that derives the four boolean series: any failure stops the run.\<close>

definition booleans ::
  "float_lib \<Rightarrow> dataframe \<Rightarrow> string \<Rightarrow> string \<Rightarrow> string \<Rightarrow> string
     \<Rightarrow> error + (bool list \<times> bool list \<times> bool list \<times> bool list)" where
  "booleans L df col_call_attempted col_call_connected col_wa_sent col_wa_received =
     (case df_getitem df col_call_attempted of
        None \<Rightarrow> Inl (ErrorInterpretingColumns col_call_attempted)
      | Some xa \<Rightarrow>
     (case df_getitem df col_call_connected of
        None \<Rightarrow> Inl (ErrorInterpretingColumns col_call_connected)
      | Some xc \<Rightarrow>
     (case df_getitem df col_wa_sent of
        None \<Rightarrow> Inl (ErrorInterpretingColumns col_wa_sent)
      | Some xs \<Rightarrow>
     (case df_getitem df col_wa_received of
        None \<Rightarrow> Inl (ErrorInterpretingColumns col_wa_received)
      | Some xr \<Rightarrow>
          Inr (to_bool_series L xa, to_bool_series L xc, to_bool_series L xs,
               to_bool_series L xr)))))"

definition count_duplicate_leads :: "dataframe \<Rightarrow> error + nat" where
  "count_duplicate_leads df =
     (case df_getitem df ''Phone Number'' of
        None \<Rightarrow> Inl (KeyError ''Phone Number'')
      | Some phone \<Rightarrow> Inr (df_len (select_rows df (duplicated_keep_False phone))))"

text \<open>
  The run of the application on a dataset that was read, with the four selections of the
  mapping step: either it stops with an error and shows no counts, or it shows the
  twelve counts.
\<close>

definition report ::
  "float_lib \<Rightarrow> dataframe \<Rightarrow> string \<Rightarrow> string \<Rightarrow> string \<Rightarrow> string
     \<Rightarrow> error + metrics" where
  "report L df col_call_attempted col_call_connected col_wa_sent col_wa_received =
     (if df_empty df then Inl EmptyFile
      else
        (let required = [(''Calls Attempted'', col_call_attempted),
                         (''Calls Connected'', col_call_connected),
                         (''WhatsApp Sent'', col_wa_sent),
                         (''WhatsApp Received'', col_wa_received)];
             missing = map fst (filter (\<lambda>(name, sel). sel = ''-- select --'') required)
         in if missing \<noteq> [] then Inl (PleaseSelect missing)
            else
              (case booleans L df col_call_attempted col_call_connected col_wa_sent
                      col_wa_received of
                 Inl e \<Rightarrow> Inl e
               | Inr (call_attempted, call_connected, wa_sent, wa_received) \<Rightarrow>
                   (let wa_attempted = wa_sent;
                        wa_connected = wa_received;
                        m1 = series_or call_connected wa_connected;
                        m2 = series_and call_connected (series_not wa_connected);
                        m3 = series_and wa_connected (series_not call_connected);
                        m4 = series_not call_attempted;
                        m5 = series_not wa_attempted;
                        m6 = series_and (series_not call_attempted) (series_not wa_attempted);
                        m7 = series_and call_connected wa_connected;
                        m8 = series_and (series_and call_connected wa_sent) (series_not wa_received);
                        m9 = series_and (series_not call_attempted) wa_attempted;
                        m10 = series_and call_attempted (series_not wa_attempted);
                        total = df_len df
                    in (case count_duplicate_leads df of
                          Inl e \<Rightarrow> Inl e
                        | Inr dup \<Rightarrow>
                            Inr \<lparr>connected_by_either = series_sum m1,
                                 only_connected_on_calls = series_sum m2,
                                 only_connected_on_calls_wa_attempted = series_sum m8,
                                 only_connected_on_whatsapp = series_sum m3,
                                 connected_on_both = series_sum m7,
                                 no_wa_and_calls_attempted = series_sum m6,
                                 no_calls_attempted = series_sum m4,
                                 no_calls_but_wa_attempted = series_sum m9,
                                 no_wa_attempted = series_sum m5,
                                 no_wa_but_calls_attempted = series_sum m10,
                                 total_leads = total,
                                 duplicate_leads = dup\<rparr>)))))"


text \<open>
  The end-to-end scenario: four rows, the four signal columns of the scenario and a
  phone-number column.
\<close>

definition scenario_df :: "cell list \<Rightarrow> dataframe" where
  "scenario_df phone =
     \<lparr>df_len = 4,
      df_cols = [(''CallAttempted'', [IntV 1, IntV 1, IntV 0, IntV 0]),
                 (''CallConnected'', [IntV 1, IntV 0, IntV 0, IntV 0]),
                 (''WaSent'', [IntV 1, IntV 1, IntV 1, IntV 0]),
                 (''WaReceived'', [IntV 0, IntV 1, IntV 0, IntV 0]),
                 (''Phone Number'', phone)]\<rparr>"


section \<open>Properties of the normalizer\<close>

lemma re_sub_runs_delete: "re_sub_runs cls [] s = filter (\<lambda>c. \<not> cls c) s"
proof (induction cls "[] :: string" s rule: re_sub_runs.induct)
  case (1 cls)
  show ?case by simp
next
  case (2 cls c cs)
  have drop: "filter (\<lambda>c. \<not> cls c) (dropWhile cls cs) = filter (\<lambda>c. \<not> cls c) cs"
    by (induction cs) auto
  from 2 show ?case by (simp add: drop)
qed

lemma lower_alnum_not_space: "py_isspace c \<Longrightarrow> \<not> lower_alnum (lower_char c)"
  by (auto simp: py_isspace_def lower_alnum_def lower_char_def py_isupper_def Let_def)

lemma filter_dropWhile_none:
  "(\<And>c. P c \<Longrightarrow> \<not> Q c) \<Longrightarrow> filter Q (dropWhile P s) = filter Q s"
  by (induction s) auto

lemma filter_strip:
  assumes "\<And>c. py_isspace c \<Longrightarrow> \<not> Q c"
  shows "filter Q (strip s) = filter Q s"
proof -
  have "filter Q (strip s) = rev (filter Q (dropWhile py_isspace (rev (dropWhile py_isspace s))))"
    by (simp add: strip_def rev_filter)
  also have "\<dots> = rev (filter Q (rev (dropWhile py_isspace s)))"
    using assms by (simp add: filter_dropWhile_none)
  also have "\<dots> = filter Q (dropWhile py_isspace s)"
    by (simp add: rev_filter)
  also have "\<dots> = filter Q s"
    using assms by (simp add: filter_dropWhile_none)
  finally show ?thesis .
qed

lemma normalize_str_filter: "normalize_str s = filter lower_alnum (lower s)"
proof -
  have "normalize_str s = filter lower_alnum (map lower_char (strip s))"
    by (simp add: normalize_str_def re_sub_runs_delete lower_def)
  also have "\<dots> = map lower_char (filter (\<lambda>c. lower_alnum (lower_char c)) (strip s))"
    by (simp add: filter_map comp_def)
  also have "\<dots> = map lower_char (filter (\<lambda>c. lower_alnum (lower_char c)) s)"
    by (rule arg_cong [where f = "map lower_char"], rule filter_strip)
       (rule lower_alnum_not_space)
  also have "\<dots> = filter lower_alnum (lower s)"
    by (simp add: filter_map comp_def lower_def)
  finally show ?thesis .
qed

lemma normalize_str_blank:
  assumes "\<forall>c \<in> set s. py_isspace c"
  shows "normalize_str s = []"
proof -
  have "filter (\<lambda>c. lower_alnum (lower_char c)) s = []"
    using assms by (auto simp: filter_empty_conv dest: lower_alnum_not_space)
  then have "filter lower_alnum (map lower_char s) = []"
    by (simp add: filter_map comp_def)
  then show ?thesis by (simp add: normalize_str_filter lower_def)
qed

text \<open>
  C8.  The normalizer is a total function: for every string it returns the lowercase form
  of the input from which every character outside \<open>a-z\<close>, \<open>0-9\<close> (hence every run of
  such characters) has been removed.  \<open>Calls - Attempted!!\<close> and \<open>CALLSATTEMPTED\<close> both
  normalize to \<open>callsattempted\<close>, and the empty string and every string made of
  whitespace only normalize to the empty string.
\<close>

theorem normalize_lowercase_alnum:
  "normalize_str s = filter lower_alnum (lower s)
   \<and> normalize_str ''Calls - Attempted!!'' = ''callsattempted''
   \<and> normalize_str ''CALLSATTEMPTED'' = ''callsattempted''
   \<and> normalize_str [] = []
   \<and> ((\<forall>c \<in> set s. py_isspace c) \<longrightarrow> normalize_str s = [])"
proof -
  have e1: "normalize_str ''Calls - Attempted!!'' = ''callsattempted''" by code_simp
  have e2: "normalize_str ''CALLSATTEMPTED'' = ''callsattempted''" by code_simp
  have e3: "normalize_str [] = []" by (simp add: normalize_str_filter lower_def)
  show ?thesis
    using normalize_str_filter [of s] normalize_str_blank [of s] e1 e2 e3 by blast
qed

theorem normalize_lowercase_alnum_witness:
  "set ''  '' = {CHR '' ''} \<and> py_isspace CHR '' '' \<and> normalize_str ''  '' = []
   \<and> normalize_str ''  '' = filter lower_alnum (lower ''  '')"
proof -
  have h: "py_isspace CHR '' ''" by (simp add: py_isspace_def)
  then have "\<forall>c \<in> set ''  ''. py_isspace c" by simp
  with normalize_lowercase_alnum [of "''  ''"] h show ?thesis by auto
qed

section \<open>Properties of the guesser\<close>

lemma str_contains_sublist: "str_contains n k \<longleftrightarrow> sublist k n"
  by (induction n) (auto simp: sublist_Cons_right)

lemma str_contains_iff: "str_contains n k \<longleftrightarrow> (\<exists>p s. n = p @ k @ s)"
  by (simp add: str_contains_sublist sublist_def)

lemma find_append_cases:
  "find P (xs @ ys) = (case find P xs of None \<Rightarrow> find P ys | Some x \<Rightarrow> Some x)"
  by (induction xs) auto

text \<open>The dictionary built from a list of labels holds each label once, at its first place.\<close>

lemma dict_set_known:
  "k \<in> set ks \<Longrightarrow> dict_set (map (\<lambda>c. (c, f c)) ks) k (f k) = map (\<lambda>c. (c, f c)) ks"
  by (induction ks) auto

lemma dict_set_fresh:
  "k \<notin> set ks \<Longrightarrow> dict_set (map (\<lambda>c. (c, f c)) ks) k (f k) = map (\<lambda>c. (c, f c)) (ks @ [k])"
  by (induction ks) auto

lemma guess_loop_find:
  "guess_loop kws (map (\<lambda>c. (c, f c)) ks) = find (\<lambda>c. \<exists>k \<in> set kws. str_contains (f c) k) ks"
  by (induction ks) (auto simp: list_ex_iff)

lemma guess_fold_find:
  "guess_loop kws (foldl (\<lambda>d c. dict_set d c (f c)) (map (\<lambda>c. (c, f c)) ks) cs)
     = find (\<lambda>c. \<exists>k \<in> set kws. str_contains (f c) k) (ks @ cs)"
proof (induction cs arbitrary: ks)
  case Nil
  show ?case by (simp add: guess_loop_find)
next
  case (Cons c cs)
  let ?P = "\<lambda>c. \<exists>k \<in> set kws. str_contains (f c) k"
  show ?case
  proof (cases "c \<in> set ks")
    case True
    have "find ?P (ks @ c # cs) = find ?P (ks @ cs)"
    proof (cases "find ?P ks")
      case None
      with True have "\<not> ?P c" by (auto simp: find_None_iff)
      with None show ?thesis by (simp add: find_append_cases)
    next
      case (Some a)
      then show ?thesis by (simp add: find_append_cases)
    qed
    with True Cons.IH [of ks] show ?thesis by (simp add: dict_set_known)
  next
    case False
    with Cons.IH [of "ks @ [c]"] show ?thesis by (simp add: dict_set_fresh)
  qed
qed

lemma guess_column_find:
  "guess_column columns kws
     = find (\<lambda>c. \<exists>k \<in> set kws. sublist k (normalize_str c)) columns"
  using guess_fold_find [of kws normalize_str "[]" columns]
  by (simp add: guess_column_def norm_map_def str_contains_sublist)

text \<open>
  C7.  For every list of column labels and every keyword list the guesser returns the
  first label, in the order of the list, whose normalized form contains a keyword
  of the list as a substring, and \<open>None\<close> (no error) exactly when no label qualifies.  For
  the labels \<open>Call Attempt Flag\<close>, \<open>WA Sent?\<close> it selects \<open>Call Attempt Flag\<close> under every
  keyword list that includes \<open>attempt\<close>, in particular under the list of the application.
\<close>

theorem guess_column_first_match:
  "guess_column columns kws
     = find (\<lambda>c. \<exists>k \<in> set kws. sublist k (normalize_str c)) columns
   \<and> (guess_column columns kws = None
        \<longleftrightarrow> \<not> (\<exists>c \<in> set columns. \<exists>k \<in> set kws. sublist k (normalize_str c)))
   \<and> (''attempt'' \<in> set kws
        \<longrightarrow> guess_column [''Call Attempt Flag'', ''WA Sent?''] kws = Some ''Call Attempt Flag'')
   \<and> guess_column [''Call Attempt Flag'', ''WA Sent?''] call_attempted_keywords
        = Some ''Call Attempt Flag''"
proof -
  have n1: "normalize_str ''Call Attempt Flag'' = ''callattemptflag''" by code_simp
  have s1: "sublist ''attempt'' ''callattemptflag''"
    unfolding sublist_def by (rule exI [of _ "''call''"], rule exI [of _ "''flag''"]) simp
  have ex: "''attempt'' \<in> set ks
      \<Longrightarrow> guess_column [''Call Attempt Flag'', ''WA Sent?''] ks = Some ''Call Attempt Flag''" for ks
    using n1 s1 by (auto simp: guess_column_find)
  have "''attempt'' \<in> set call_attempted_keywords"
    by (simp add: call_attempted_keywords_def)
  then have ex2: "guess_column [''Call Attempt Flag'', ''WA Sent?''] call_attempted_keywords
      = Some ''Call Attempt Flag''" by (rule ex)
  have none: "guess_column columns kws = None
        \<longleftrightarrow> \<not> (\<exists>c \<in> set columns. \<exists>k \<in> set kws. sublist k (normalize_str c))"
    by (auto simp: guess_column_find find_None_iff)
  show ?thesis using guess_column_find [of columns kws] none ex [of kws] ex2 by blast
qed

theorem guess_column_first_match_witness:
  "''attempt'' \<in> set [''dial'', ''attempt'']
   \<and> guess_column [''Call Attempt Flag'', ''WA Sent?''] [''dial'', ''attempt'']
        = Some ''Call Attempt Flag''
   \<and> guess_column [''Lead'', ''WA Sent?''] [''dial'', ''attempt''] = None"
proof -
  have h: "''attempt'' \<in> set [''dial'', ''attempt'']" by simp
  have n: "find (\<lambda>c. \<exists>k \<in> set [''dial'', ''attempt'']. sublist k (normalize_str c))
             [''Lead'', ''WA Sent?''] = None"
    unfolding str_contains_sublist [symmetric] by code_simp
  from guess_column_first_match [of "[''Lead'', ''WA Sent?'']" "[''dial'', ''attempt'']"] n h
  show ?thesis by simp
qed

section \<open>Properties of the signal extractor\<close>

lemma length_to_bool_series: "length (to_bool_series L s) = length s"
  by (simp add: to_bool_series_def fillna_False_def to_numeric_def fillna_def isin_def Let_def)

lemma to_bool_series_numeric_branch:
  assumes "\<not> dtype_is_bool s" "\<exists>v \<in> set s. to_numeric_coerce L v \<noteq> None"
  shows "to_bool_series L s
           = map (\<lambda>v. gt_zero (case to_numeric_coerce L v of None \<Rightarrow> Finite 0 | Some q \<Rightarrow> q)) s"
proof -
  have "list_ex id (notna (to_numeric L s))"
    using assms(2) by (auto simp: list_ex_iff notna_def to_numeric_def)
  with assms(1) show ?thesis
    by (simp add: to_bool_series_def Let_def fillna_def to_numeric_def comp_def)
qed

lemma to_bool_series_bool_dtype:
  assumes "dtype_is_bool s"
  shows "to_bool_series L s
           = map (\<lambda>v. gt_zero (case to_numeric_coerce L v of None \<Rightarrow> Finite 0 | Some q \<Rightarrow> q)) s"
proof -
  have all: "\<forall>v \<in> set s. \<exists>b. v = BoolV b"
    using assms by (auto simp: dtype_is_bool_def list_all_iff elim: is_bool.elims)
  have "(case v of BoolV b \<Rightarrow> b | _ \<Rightarrow> False)
          = (gt_zero (case to_numeric_coerce L v of None \<Rightarrow> Finite 0 | Some q \<Rightarrow> q))" if "v \<in> set s" for v
  proof -
    from all that obtain b where "v = BoolV b" by blast
    then show ?thesis by simp
  qed
  then have "fillna_False s
           = map (\<lambda>v. gt_zero (case to_numeric_coerce L v of None \<Rightarrow> Finite 0 | Some q \<Rightarrow> q)) s"
    unfolding fillna_False_def by (intro map_cong) simp_all
  with assms show ?thesis by (simp add: to_bool_series_def)
qed

lemma to_bool_series_categorical_branch:
  assumes "\<forall>v \<in> set s. to_numeric_coerce L v = None"
  shows "to_bool_series L s = map (\<lambda>v. lower (strip (astype_str L v)) \<in> set true_set) s"
proof -
  have nb: "\<not> dtype_is_bool s"
  proof
    assume "dtype_is_bool s"
    then obtain v where "v \<in> set s" "\<exists>b. v = BoolV b"
      by (cases s) (auto simp: dtype_is_bool_def elim: is_bool.elims)
    with assms show False by auto
  qed
  have "\<not> list_ex id (notna (to_numeric L s))"
    using assms by (auto simp: list_ex_iff notna_def to_numeric_def)
  with nb show ?thesis
    by (simp add: to_bool_series_def Let_def isin_def comp_def)
qed

lemma nan_not_true: "lower (strip ''nan'') \<notin> set true_set"
  by code_simp

lemma categorical_cell:
  assumes "to_numeric_coerce L v = None"
  shows "(lower (strip (astype_str L v)) \<in> set true_set)
           = (case v of StrV t \<Rightarrow> lower (strip t) \<in> set true_set | _ \<Rightarrow> False)"
  using assms nan_not_true by (cases v) auto

lemma empty_not_true: "lower (strip []) \<notin> set true_set"
  by code_simp

text \<open>
  A column of type \<open>object\<close> that mixes booleans with text is numeric, since a boolean
  has a numeric value: the text of such a column is never matched against \<open>true_set\<close>.
\<close>

lemma mixed_bool_text_is_numeric:
  "to_bool_series L [BoolV False, StrV ''yes''] = [False, False]"
  by code_simp

lemma true_set_words:
  "set true_set = {''yes'', ''y'', ''true'', ''t'', ''1'', ''connected'', ''done'', ''received'',
                   ''delivered'', ''answer'', ''answered'', ''success''}"
  by (simp add: true_set_def)

lemma scan_long_numeral: "scan_numeral ''1e-330'' = Some (False, ''1'', False)"
  by code_simp

lemma underflow_is_zero:
  assumes "lib_strtod L ''1e-330'' = Some (Finite 0)"
  shows "to_bool_series L [StrV ''1e-330'', StrV ''x''] = [False, False]"
proof -
  have n1: "to_numeric_coerce L (StrV ''1e-330'') = Some (Finite 0)"
    using assms by (simp add: floatify_def to_double_def scan_long_numeral)
  have n2: "to_numeric_coerce L (StrV ''x'') = None" by code_simp
  have d: "\<not> dtype_is_bool [StrV ''1e-330'', StrV ''x'']"
    by (simp add: dtype_is_bool_def)
  from d n1 n2 show ?thesis
    by (simp add: to_bool_series_def to_numeric_def notna_def fillna_def)
qed

text \<open>
  C2.  Whenever some cell of the column parses as a number (a boolean cell counts as 1 or
  0, as \<open>to_numeric\<close> reads it), every row of the output is true exactly when the
  parsed value of its cell, with 0 for a missing or unparsable cell, is greater than
  zero (\<open>gt_zero\<close>).  The parsed value of a string is the 64-bit float of the scanner:
  the column \<open>["1e-330", "x"]\<close>, whose first cell underflows to zero, maps to
  \<open>[False, False]\<close>.  The column \<open>[0, 1, -2, "3", ""]\<close> maps to
  \<open>[False, True, False, True, False]\<close>, and the float column \<open>[0.5, -0.5, 0.0]\<close> to
  \<open>[True, False, False]\<close>.
\<close>

theorem to_bool_series_numeric:
  "((\<exists>v \<in> set s. to_numeric_coerce L v \<noteq> None) \<longrightarrow>
      to_bool_series L s
        = map (\<lambda>v. gt_zero (case to_numeric_coerce L v of None \<Rightarrow> Finite 0 | Some q \<Rightarrow> q)) s)
   \<and> to_bool_series L [IntV 0, IntV 1, IntV (- 2), StrV ''3'', StrV []]
        = [False, True, False, True, False]
   \<and> to_bool_series L [FloatV (Finite (1 / 2)), FloatV (Finite (- (1 / 2))), FloatV (Finite 0)]
        = [True, False, False]
   \<and> (lib_strtod L ''1e-330'' = Some (Finite 0) \<longrightarrow>
        to_bool_series L [StrV ''1e-330'', StrV ''x''] = [False, False])"
proof -
  have ex: "to_bool_series L [IntV 0, IntV 1, IntV (- 2), StrV ''3'', StrV []]
        = [False, True, False, True, False]" by code_simp
  have fl: "to_bool_series L
              [FloatV (Finite (1 / 2)), FloatV (Finite (- (1 / 2))), FloatV (Finite 0)]
        = [True, False, False]" by code_simp
  have "to_bool_series L s
        = map (\<lambda>v. gt_zero (case to_numeric_coerce L v of None \<Rightarrow> Finite 0 | Some q \<Rightarrow> q)) s"
    if "\<exists>v \<in> set s. to_numeric_coerce L v \<noteq> None"
    using that to_bool_series_bool_dtype [of s L] to_bool_series_numeric_branch [of s L]
    by (cases "dtype_is_bool s") blast+
  with ex fl underflow_is_zero [of L] show ?thesis by blast
qed

theorem to_bool_series_numeric_witness:
  "to_numeric_coerce
      \<lparr>lib_strtod = (\<lambda>s. if s = ''2.5'' then Some (Finite (5 / 2))
                          else if s = ''1e-330'' then Some (Finite 0) else None),
       lib_repr = (\<lambda>x. [])\<rparr>
      (StrV ''2.5'') = Some (Finite (5 / 2))
   \<and> to_bool_series
      \<lparr>lib_strtod = (\<lambda>s. if s = ''2.5'' then Some (Finite (5 / 2))
                          else if s = ''1e-330'' then Some (Finite 0) else None),
       lib_repr = (\<lambda>x. [])\<rparr>
      [StrV ''n/a'', StrV ''2.5'', Missing, StrV ''1e-330'', FloatV (Finite (1 / 2))]
        = [False, True, False, False, True]"
proof -
  let ?L = "\<lparr>lib_strtod = (\<lambda>s. if s = ''2.5'' then Some (Finite (5 / 2))
                          else if s = ''1e-330'' then Some (Finite 0) else None),
             lib_repr = (\<lambda>x. [])\<rparr>"
  let ?s = "[StrV ''n/a'', StrV ''2.5'', Missing, StrV ''1e-330'', FloatV (Finite (1 / 2))]"
  have n: "to_numeric_coerce ?L (StrV ''2.5'') = Some (Finite (5 / 2))" by code_simp
  have r: "map (\<lambda>v. gt_zero (case to_numeric_coerce ?L v of None \<Rightarrow> Finite 0 | Some q \<Rightarrow> q)) ?s
             = [False, True, False, False, True]"
    by code_simp
  from n have "\<exists>v \<in> set ?s. to_numeric_coerce ?L v \<noteq> None" by simp
  with to_bool_series_numeric [where L = ?L and s = ?s] r n
  show ?thesis by simp
qed

text \<open>
  C3.  When every cell of the column is a boolean or missing, the output holds the
  booleans unchanged and \<open>False\<close> at every missing cell: a row is true exactly when its
  cell is \<open>True\<close>.  No condition on the numeric or the categorical rule is needed.
\<close>

theorem to_bool_series_boolean:
  "(\<forall>v \<in> set s. v = Missing \<or> is_bool v) \<longrightarrow> to_bool_series L s = map (\<lambda>v. v = BoolV True) s"
proof
  assume a: "\<forall>v \<in> set s. v = Missing \<or> is_bool v"
  have cellwise: "(gt_zero (case to_numeric_coerce L v of None \<Rightarrow> Finite 0 | Some q \<Rightarrow> q)) = (v = BoolV True)"
    if "v \<in> set s" for v
    using a that by (cases v) auto
  show "to_bool_series L s = map (\<lambda>v. v = BoolV True) s"
  proof (cases "\<exists>v \<in> set s. to_numeric_coerce L v \<noteq> None")
    case True
    then have "to_bool_series L s
        = map (\<lambda>v. gt_zero (case to_numeric_coerce L v of None \<Rightarrow> Finite 0 | Some q \<Rightarrow> q)) s"
      using to_bool_series_bool_dtype [of s L] to_bool_series_numeric_branch [of s L]
      by (cases "dtype_is_bool s") blast+
    also have "\<dots> = map (\<lambda>v. v = BoolV True) s"
      by (intro map_cong) (simp_all add: cellwise)
    finally show ?thesis .
  next
    case False
    then have none: "\<forall>v \<in> set s. to_numeric_coerce L v = None" by simp
    have "(lower (strip (astype_str L v)) \<in> set true_set) = (v = BoolV True)" if "v \<in> set s" for v
    proof -
      from a that none have "v = Missing" by (cases v) auto
      then show ?thesis using nan_not_true by simp
    qed
    then have "map (\<lambda>v. lower (strip (astype_str L v)) \<in> set true_set) s
        = map (\<lambda>v. v = BoolV True) s"
      by (intro map_cong) simp_all
    with to_bool_series_categorical_branch [OF none] show ?thesis by simp
  qed
qed

theorem to_bool_series_boolean_witness:
  "is_bool (BoolV True) \<and> is_bool (BoolV False)
   \<and> to_bool_series \<lparr>lib_strtod = (\<lambda>s. None), lib_repr = (\<lambda>x. [])\<rparr>
        [BoolV True, Missing, BoolV False] = [True, False, False]"
proof -
  have "\<forall>v \<in> set [BoolV True, Missing, BoolV False]. v = Missing \<or> is_bool v" by simp
  with to_bool_series_boolean
         [where s = "[BoolV True, Missing, BoolV False]"
            and L = "\<lparr>lib_strtod = (\<lambda>s. None), lib_repr = (\<lambda>x. [])\<rparr>"]
  show ?thesis by simp
qed

text \<open>
  C4.  When the column is not of boolean type and no cell of it parses as a number, a
  row of the output is true exactly when its cell is a string that, trimmed and
  lowercased, is one of the twelve words of \<open>true_set\<close>; every other cell, a missing one
  and the empty string included, gives \<open>False\<close>.  \<open>["Yes", "no", "TRUE", "maybe"]\<close> maps to
  \<open>[True, False, True, False]\<close>.
\<close>

theorem to_bool_series_categorical:
  "(\<not> dtype_is_bool s \<and> (\<forall>v \<in> set s. to_numeric_coerce L v = None) \<longrightarrow>
      to_bool_series L s
        = map (\<lambda>v. case v of StrV t \<Rightarrow> lower (strip t) \<in> set true_set | _ \<Rightarrow> False) s)
   \<and> set true_set = {''yes'', ''y'', ''true'', ''t'', ''1'', ''connected'', ''done'', ''received'',
                     ''delivered'', ''answer'', ''answered'', ''success''}
   \<and> to_bool_series L [StrV ''Yes'', StrV ''no'', StrV ''TRUE'', StrV ''maybe'']
        = [True, False, True, False]
   \<and> to_bool_series L [Missing, StrV [], StrV ''  ''] = [False, False, False]"
proof -
  have e1: "to_bool_series L [StrV ''Yes'', StrV ''no'', StrV ''TRUE'', StrV ''maybe'']
        = [True, False, True, False]" by code_simp
  have e2: "to_bool_series L [Missing, StrV [], StrV ''  ''] = [False, False, False]"
    by code_simp
  have "to_bool_series L s
        = map (\<lambda>v. case v of StrV t \<Rightarrow> lower (strip t) \<in> set true_set | _ \<Rightarrow> False) s"
    if none: "\<forall>v \<in> set s. to_numeric_coerce L v = None"
  proof -
    have "map (\<lambda>v. lower (strip (astype_str L v)) \<in> set true_set) s
        = map (\<lambda>v. case v of StrV t \<Rightarrow> lower (strip t) \<in> set true_set | _ \<Rightarrow> False) s"
      using none by (intro map_cong) (simp_all add: categorical_cell)
    with to_bool_series_categorical_branch [OF none] show ?thesis by simp
  qed
  with e1 e2 true_set_words show ?thesis by blast
qed

theorem to_bool_series_categorical_witness:
  "\<not> dtype_is_bool [StrV '' Done '', Missing, StrV ''nope'']
   \<and> to_numeric_coerce \<lparr>lib_strtod = (\<lambda>s. None), lib_repr = (\<lambda>x. [])\<rparr> (StrV '' Done '') = None
   \<and> to_numeric_coerce \<lparr>lib_strtod = (\<lambda>s. None), lib_repr = (\<lambda>x. [])\<rparr> Missing = None
   \<and> to_numeric_coerce \<lparr>lib_strtod = (\<lambda>s. None), lib_repr = (\<lambda>x. [])\<rparr> (StrV ''nope'') = None
   \<and> to_bool_series \<lparr>lib_strtod = (\<lambda>s. None), lib_repr = (\<lambda>x. [])\<rparr>
        [StrV '' Done '', Missing, StrV ''nope''] = [True, False, False]"
proof -
  let ?L = "\<lparr>lib_strtod = (\<lambda>s. None), lib_repr = (\<lambda>x. [])\<rparr>"
  have d: "\<not> dtype_is_bool [StrV '' Done '', Missing, StrV ''nope'']" by code_simp
  have n1: "to_numeric_coerce ?L (StrV '' Done '') = None" by code_simp
  have n2: "to_numeric_coerce ?L (StrV ''nope'') = None" by code_simp
  have r: "map (\<lambda>v. case v of StrV t \<Rightarrow> lower (strip t) \<in> set true_set | _ \<Rightarrow> False)
             [StrV '' Done '', Missing, StrV ''nope''] = [True, False, False]"
    by code_simp
  from n1 n2
  have "\<forall>v \<in> set [StrV '' Done '', Missing, StrV ''nope'']. to_numeric_coerce ?L v = None"
    by simp
  with to_bool_series_categorical
         [where s = "[StrV '' Done '', Missing, StrV ''nope'']" and L = ?L] d r n1 n2
  show ?thesis by simp
qed

section \<open>Properties of the segment calculator\<close>

lemma series_sum_card: "series_sum a = card {i. i < length a \<and> a ! i}"
  by (simp add: series_sum_def length_filter_conv_card)

lemma length_series_not [simp]: "length (series_not a) = length a"
  by (simp add: series_not_def)

lemma length_series_and [simp]: "length (series_and a b) = min (length a) (length b)"
  by (simp add: series_and_def)

lemma length_series_or [simp]: "length (series_or a b) = min (length a) (length b)"
  by (simp add: series_or_def)

lemma nth_series_not [simp]: "i < length a \<Longrightarrow> series_not a ! i = (\<not> a ! i)"
  by (simp add: series_not_def)

lemma nth_series_and [simp]:
  "i < length a \<Longrightarrow> i < length b \<Longrightarrow> series_and a b ! i = (a ! i \<and> b ! i)"
  by (simp add: series_and_def)

lemma nth_series_or [simp]:
  "i < length a \<Longrightarrow> i < length b \<Longrightarrow> series_or a b ! i = (a ! i \<or> b ! i)"
  by (simp add: series_or_def)

lemma series_sum_pred:
  assumes "length a = n" "\<And>i. i < n \<Longrightarrow> a ! i = P i"
  shows "series_sum a = card {i. i < n \<and> P i}"
proof -
  have "{i. i < length a \<and> a ! i} = {i. i < n \<and> P i}"
    using assms by auto
  then show ?thesis by (simp add: series_sum_card)
qed

lemma df_getitem_length:
  assumes "wf_df df" "df_getitem df l = Some x"
  shows "length x = df_len df"
proof -
  from assms(2) have "(l, x) \<in> set (df_cols df)"
    by (simp add: df_getitem_def map_of_SomeD)
  with assms(1) show ?thesis by (auto simp: wf_df_def list_all_iff)
qed

lemma report_Inr_iff:
  "report L df a c s r = Inr m \<longleftrightarrow>
     \<not> df_empty df \<and> a \<noteq> ''-- select --'' \<and> c \<noteq> ''-- select --''
     \<and> s \<noteq> ''-- select --'' \<and> r \<noteq> ''-- select --''
     \<and> (\<exists>xa xc xs xr phone.
           df_getitem df a = Some xa \<and> df_getitem df c = Some xc
         \<and> df_getitem df s = Some xs \<and> df_getitem df r = Some xr
         \<and> df_getitem df ''Phone Number'' = Some phone
         \<and> m = \<lparr>connected_by_either = series_sum (series_or (to_bool_series L xc) (to_bool_series L xr)),
                 only_connected_on_calls =
                   series_sum (series_and (to_bool_series L xc) (series_not (to_bool_series L xr))),
                 only_connected_on_calls_wa_attempted =
                   series_sum (series_and (series_and (to_bool_series L xc) (to_bool_series L xs))
                                          (series_not (to_bool_series L xr))),
                 only_connected_on_whatsapp =
                   series_sum (series_and (to_bool_series L xr) (series_not (to_bool_series L xc))),
                 connected_on_both = series_sum (series_and (to_bool_series L xc) (to_bool_series L xr)),
                 no_wa_and_calls_attempted =
                   series_sum (series_and (series_not (to_bool_series L xa)) (series_not (to_bool_series L xs))),
                 no_calls_attempted = series_sum (series_not (to_bool_series L xa)),
                 no_calls_but_wa_attempted =
                   series_sum (series_and (series_not (to_bool_series L xa)) (to_bool_series L xs)),
                 no_wa_attempted = series_sum (series_not (to_bool_series L xs)),
                 no_wa_but_calls_attempted =
                   series_sum (series_and (to_bool_series L xa) (series_not (to_bool_series L xs))),
                 total_leads = df_len df,
                 duplicate_leads = series_sum (duplicated_keep_False phone)\<rparr>)"
  by (auto simp: report_def booleans_def count_duplicate_leads_def select_rows_def series_sum_def
      Let_def split: option.splits)

lemma series_sum_Cons [simp]: "series_sum (x # xs) = (if x then Suc (series_sum xs) else series_sum xs)"
  by (simp add: series_sum_def)

lemma series_sum_Nil [simp]: "series_sum [] = 0"
  by (simp add: series_sum_def)

lemma series_not_Cons [simp]: "series_not (x # xs) = (\<not> x) # series_not xs"
  by (simp add: series_not_def)

lemma series_not_Nil [simp]: "series_not [] = []"
  by (simp add: series_not_def)

lemma series_and_Cons [simp]: "series_and (x # xs) (y # ys) = (x \<and> y) # series_and xs ys"
  by (simp add: series_and_def)

lemma series_and_Nil [simp]: "series_and [] ys = []"
  by (simp add: series_and_def)

lemma series_or_Cons [simp]: "series_or (x # xs) (y # ys) = (x \<or> y) # series_or xs ys"
  by (simp add: series_or_def)

lemma series_or_Nil [simp]: "series_or [] ys = []"
  by (simp add: series_or_def)

lemma split_by_second:
  "length a = length b \<Longrightarrow>
     series_sum a = series_sum (series_and a (series_not b)) + series_sum (series_and a b)"
  by (induction a b rule: list_induct2) auto

lemma both_le_either:
  "length a = length b \<Longrightarrow> series_sum (series_and a b) \<le> series_sum (series_or a b)"
  by (induction a b rule: list_induct2) auto

lemma four_way_partition:
  "length a = length b \<Longrightarrow>
     series_sum (series_and a (series_not b)) + series_sum (series_and a b)
       + series_sum (series_and b (series_not a))
       + series_sum (series_and (series_not a) (series_not b)) = length a"
  by (induction a b rule: list_induct2) auto

lemma and_third_le:
  "length c = length s \<Longrightarrow> length s = length r \<Longrightarrow>
     series_sum (series_and (series_and c s) (series_not r))
       \<le> series_sum (series_and c (series_not r))"
  by (induction c s r rule: list_induct3) auto

lemma not_split_not:
  "length a = length b \<Longrightarrow>
     series_sum (series_not b)
       = series_sum (series_and (series_not a) (series_not b))
         + series_sum (series_and a (series_not b))"
  by (induction a b rule: list_induct2) auto

lemma dup_scan_length [simp]: "length (dup_scan seen vs) = length vs"
  by (induction vs arbitrary: seen) auto

lemma dup_scan_nth:
  "i < length vs \<Longrightarrow>
     dup_scan seen vs ! i = (vs ! i \<in> set seen \<or> (\<exists>j < length vs. j \<noteq> i \<and> vs ! j = vs ! i))"
proof (induction vs arbitrary: seen i)
  case Nil
  then show ?case by simp
next
  case (Cons v vs)
  show ?case
  proof (cases i)
    case 0
    have "v \<in> set vs \<longleftrightarrow> (\<exists>j < Suc (length vs). j \<noteq> 0 \<and> (v # vs) ! j = v)"
    proof
      assume "v \<in> set vs"
      then obtain k where "k < length vs" "vs ! k = v" by (auto simp: in_set_conv_nth)
      then have "Suc k < Suc (length vs) \<and> Suc k \<noteq> 0 \<and> (v # vs) ! Suc k = v" by simp
      then show "\<exists>j < Suc (length vs). j \<noteq> 0 \<and> (v # vs) ! j = v" by blast
    next
      assume "\<exists>j < Suc (length vs). j \<noteq> 0 \<and> (v # vs) ! j = v"
      then obtain j where j: "j < Suc (length vs)" "j \<noteq> 0" "(v # vs) ! j = v" by blast
      then obtain k where "j = Suc k" by (cases j) auto
      with j show "v \<in> set vs" by (auto simp: in_set_conv_nth)
    qed
    with 0 show ?thesis by simp
  next
    case (Suc k)
    with Cons.prems have k: "k < length vs" by simp
    have "(\<exists>j < Suc (length vs). j \<noteq> Suc k \<and> (v # vs) ! j = vs ! k)
            \<longleftrightarrow> (v = vs ! k \<or> (\<exists>j < length vs. j \<noteq> k \<and> vs ! j = vs ! k))"
    proof
      assume "\<exists>j < Suc (length vs). j \<noteq> Suc k \<and> (v # vs) ! j = vs ! k"
      then obtain j where j: "j < Suc (length vs)" "j \<noteq> Suc k" "(v # vs) ! j = vs ! k" by blast
      show "v = vs ! k \<or> (\<exists>j < length vs. j \<noteq> k \<and> vs ! j = vs ! k)"
      proof (cases j)
        case 0
        with j show ?thesis by simp
      next
        case (Suc j')
        with j have "j' < length vs \<and> j' \<noteq> k \<and> vs ! j' = vs ! k" by simp
        then show ?thesis by blast
      qed
    next
      assume "v = vs ! k \<or> (\<exists>j < length vs. j \<noteq> k \<and> vs ! j = vs ! k)"
      then show "\<exists>j < Suc (length vs). j \<noteq> Suc k \<and> (v # vs) ! j = vs ! k"
      proof
        assume "v = vs ! k"
        then have "0 < Suc (length vs) \<and> 0 \<noteq> Suc k \<and> (v # vs) ! 0 = vs ! k" by simp
        then show ?thesis by blast
      next
        assume "\<exists>j < length vs. j \<noteq> k \<and> vs ! j = vs ! k"
        then obtain j where "j < length vs" "j \<noteq> k" "vs ! j = vs ! k" by blast
        then have "Suc j < Suc (length vs) \<and> Suc j \<noteq> Suc k \<and> (v # vs) ! Suc j = vs ! k" by simp
        then show ?thesis by blast
      qed
    qed
    with Suc k Cons.IH [of k "v # seen"] show ?thesis by auto
  qed
qed

lemma duplicated_keep_False_length [simp]: "length (duplicated_keep_False vals) = length vals"
  by (simp add: duplicated_keep_False_def)

lemma duplicated_keep_False_nth:
  "i < length vals \<Longrightarrow>
     duplicated_keep_False vals ! i
       = (\<exists>j < length vals. j \<noteq> i \<and> py_key (vals ! j) = py_key (vals ! i))"
  using dup_scan_nth [of i "map py_key vals" "[]"]
  by (auto simp: duplicated_keep_False_def)

lemma count_duplicate_leads_card:
  assumes "wf_df df" "df_getitem df ''Phone Number'' = Some phone"
  shows "count_duplicate_leads df
           = Inr (card {i. i < df_len df
                  \<and> (\<exists>j < df_len df. j \<noteq> i \<and> py_key (phone ! j) = py_key (phone ! i))})"
proof -
  have len: "length phone = df_len df" using assms by (rule df_getitem_length)
  have "series_sum (duplicated_keep_False phone)
          = card {i. i < df_len df
                  \<and> (\<exists>j < df_len df. j \<noteq> i \<and> py_key (phone ! j) = py_key (phone ! i))}"
    by (rule series_sum_pred) (simp_all add: len duplicated_keep_False_nth)
  then show ?thesis
    using assms(2) by (simp add: count_duplicate_leads_def select_rows_def series_sum_def)
qed

lemma scenario_report:
  "report L (scenario_df phone) ''CallAttempted'' ''CallConnected'' ''WaSent'' ''WaReceived''
     = Inr \<lparr>connected_by_either = 2, only_connected_on_calls = 1,
            only_connected_on_calls_wa_attempted = 1, only_connected_on_whatsapp = 1,
            connected_on_both = 0, no_wa_and_calls_attempted = 1, no_calls_attempted = 2,
            no_calls_but_wa_attempted = 1, no_wa_attempted = 1, no_wa_but_calls_attempted = 0,
            total_leads = 4, duplicate_leads = series_sum (duplicated_keep_False phone)\<rparr>"
proof -
  have b1: "to_bool_series L [IntV 1, IntV 1, IntV 0, IntV 0] = [True, True, False, False]"
    by code_simp
  have b2: "to_bool_series L [IntV 1, IntV 0, IntV 0, IntV 0] = [True, False, False, False]"
    by code_simp
  have b3: "to_bool_series L [IntV 1, IntV 1, IntV 1, IntV 0] = [True, True, True, False]"
    by code_simp
  have b4: "to_bool_series L [IntV 0, IntV 1, IntV 0, IntV 0] = [False, True, False, False]"
    by code_simp
  show ?thesis
    unfolding report_Inr_iff
    by (simp add: scenario_df_def df_empty_def df_getitem_def b1 b2 b3 b4)
qed

lemma scenario_wf: "length phone = 4 \<Longrightarrow> wf_df (scenario_df phone)"
  by (simp add: wf_df_def scenario_df_def)

text \<open>
  C1.  Whenever the run on a well-formed dataset with a complete column mapping shows its
  counts, each of the ten segment counts is the number of row indices at which the row
  predicate of the segment holds, where \<open>wa_attempted\<close> is \<open>wa_sent\<close> and \<open>wa_connected\<close>
  is \<open>wa_received\<close>, and Total Leads is the number of rows.  The run shows its counts
  whenever the dataset is not empty, the four selections name columns of it and it has
  the column \<open>Phone Number\<close>.  On every four-row dataset
  with CallAttempted=[1,1,0,0], CallConnected=[1,0,0,0], WaSent=[1,1,1,0],
  WaReceived=[0,1,0,0] and a phone-number column the run shows Connected by Either=2,
  Only Connected on Calls=1, Only Connected on WhatsApp=1, Connected on Both=0, No Calls
  Attempted=2, No Calls but WA Attempted=1 and Total Leads=4.
\<close>

theorem segment_counts_row_predicates:
  "(wf_df df
    \<and> df_getitem df a = Some xa \<and> df_getitem df c = Some xc
    \<and> df_getitem df s = Some xs \<and> df_getitem df r = Some xr
    \<and> call_attempted = to_bool_series L xa \<and> call_connected = to_bool_series L xc
    \<and> wa_sent = to_bool_series L xs \<and> wa_received = to_bool_series L xr
    \<and> wa_attempted = wa_sent \<and> wa_connected = wa_received
    \<and> report L df a c s r = Inr m
    \<longrightarrow>
      connected_by_either m
        = card {i. i < df_len df \<and> (call_connected ! i \<or> wa_connected ! i)}
    \<and> only_connected_on_calls m
        = card {i. i < df_len df \<and> (call_connected ! i \<and> \<not> wa_connected ! i)}
    \<and> only_connected_on_calls_wa_attempted m
        = card {i. i < df_len df \<and> (call_connected ! i \<and> wa_sent ! i \<and> \<not> wa_received ! i)}
    \<and> only_connected_on_whatsapp m
        = card {i. i < df_len df \<and> (wa_connected ! i \<and> \<not> call_connected ! i)}
    \<and> connected_on_both m
        = card {i. i < df_len df \<and> (call_connected ! i \<and> wa_connected ! i)}
    \<and> no_wa_and_calls_attempted m
        = card {i. i < df_len df \<and> (\<not> call_attempted ! i \<and> \<not> wa_attempted ! i)}
    \<and> no_calls_attempted m
        = card {i. i < df_len df \<and> \<not> call_attempted ! i}
    \<and> no_calls_but_wa_attempted m
        = card {i. i < df_len df \<and> (\<not> call_attempted ! i \<and> wa_attempted ! i)}
    \<and> no_wa_attempted m
        = card {i. i < df_len df \<and> \<not> wa_attempted ! i}
    \<and> no_wa_but_calls_attempted m
        = card {i. i < df_len df \<and> (call_attempted ! i \<and> \<not> wa_attempted ! i)}
    \<and> total_leads m = df_len df)
   \<and> (length phone = 4 \<longrightarrow>
        wf_df (scenario_df phone)
        \<and> (\<exists>m'. report L (scenario_df phone) ''CallAttempted'' ''CallConnected'' ''WaSent'' ''WaReceived''
                   = Inr m'
               \<and> connected_by_either m' = 2 \<and> only_connected_on_calls m' = 1
               \<and> only_connected_on_whatsapp m' = 1 \<and> connected_on_both m' = 0
               \<and> no_calls_attempted m' = 2 \<and> no_calls_but_wa_attempted m' = 1
               \<and> total_leads m' = 4))
   \<and> (\<not> df_empty df
        \<and> a \<noteq> ''-- select --'' \<and> c \<noteq> ''-- select --''
        \<and> s \<noteq> ''-- select --'' \<and> r \<noteq> ''-- select --''
        \<and> df_getitem df a = Some xa \<and> df_getitem df c = Some xc
        \<and> df_getitem df s = Some xs \<and> df_getitem df r = Some xr
        \<and> df_getitem df ''Phone Number'' = Some xp
        \<longrightarrow> (\<exists>m'. report L df a c s r = Inr m'))"
proof (intro conjI impI)
  assume h: "wf_df df
    \<and> df_getitem df a = Some xa \<and> df_getitem df c = Some xc
    \<and> df_getitem df s = Some xs \<and> df_getitem df r = Some xr
    \<and> call_attempted = to_bool_series L xa \<and> call_connected = to_bool_series L xc
    \<and> wa_sent = to_bool_series L xs \<and> wa_received = to_bool_series L xr
    \<and> wa_attempted = wa_sent \<and> wa_connected = wa_received
    \<and> report L df a c s r = Inr m"
  let ?n = "df_len df"
  from h have "length xa = ?n" "length xc = ?n" "length xs = ?n" "length xr = ?n"
    by (blast intro: df_getitem_length)+
  with h have la: "length call_attempted = ?n" and lc: "length call_connected = ?n"
    and ls: "length wa_sent = ?n" and lr: "length wa_received = ?n"
    by (simp_all add: length_to_bool_series)
  from h have eqs: "wa_attempted = wa_sent" "wa_connected = wa_received" by simp_all
  from h have m: "m = \<lparr>connected_by_either = series_sum (series_or call_connected wa_received),
                 only_connected_on_calls =
                   series_sum (series_and call_connected (series_not wa_received)),
                 only_connected_on_calls_wa_attempted =
                   series_sum (series_and (series_and call_connected wa_sent)
                                          (series_not wa_received)),
                 only_connected_on_whatsapp =
                   series_sum (series_and wa_received (series_not call_connected)),
                 connected_on_both = series_sum (series_and call_connected wa_received),
                 no_wa_and_calls_attempted =
                   series_sum (series_and (series_not call_attempted) (series_not wa_sent)),
                 no_calls_attempted = series_sum (series_not call_attempted),
                 no_calls_but_wa_attempted =
                   series_sum (series_and (series_not call_attempted) wa_sent),
                 no_wa_attempted = series_sum (series_not wa_sent),
                 no_wa_but_calls_attempted =
                   series_sum (series_and call_attempted (series_not wa_sent)),
                 total_leads = df_len df,
                 duplicate_leads = duplicate_leads m\<rparr>"
    by (auto simp: report_Inr_iff)
  show "connected_by_either m
        = card {i. i < df_len df \<and> (call_connected ! i \<or> wa_connected ! i)}"
    by (subst m, simp only: metrics.simps eqs, rule series_sum_pred) (simp_all add: lc lr)
  show "only_connected_on_calls m
        = card {i. i < df_len df \<and> (call_connected ! i \<and> \<not> wa_connected ! i)}"
    by (subst m, simp only: metrics.simps eqs, rule series_sum_pred) (simp_all add: lc lr)
  show "only_connected_on_calls_wa_attempted m
        = card {i. i < df_len df \<and> (call_connected ! i \<and> wa_sent ! i \<and> \<not> wa_received ! i)}"
    by (subst m, simp only: metrics.simps eqs, rule series_sum_pred) (simp_all add: lc lr ls)
  show "only_connected_on_whatsapp m
        = card {i. i < df_len df \<and> (wa_connected ! i \<and> \<not> call_connected ! i)}"
    by (subst m, simp only: metrics.simps eqs, rule series_sum_pred) (simp_all add: lc lr)
  show "connected_on_both m
        = card {i. i < df_len df \<and> (call_connected ! i \<and> wa_connected ! i)}"
    by (subst m, simp only: metrics.simps eqs, rule series_sum_pred) (simp_all add: lc lr)
  show "no_wa_and_calls_attempted m
        = card {i. i < df_len df \<and> (\<not> call_attempted ! i \<and> \<not> wa_attempted ! i)}"
    by (subst m, simp only: metrics.simps eqs, rule series_sum_pred) (simp_all add: la ls)
  show "no_calls_attempted m
        = card {i. i < df_len df \<and> \<not> call_attempted ! i}"
    by (subst m, simp only: metrics.simps eqs, rule series_sum_pred) (simp_all add: la)
  show "no_calls_but_wa_attempted m
        = card {i. i < df_len df \<and> (\<not> call_attempted ! i \<and> wa_attempted ! i)}"
    by (subst m, simp only: metrics.simps eqs, rule series_sum_pred) (simp_all add: la ls)
  show "no_wa_attempted m
        = card {i. i < df_len df \<and> \<not> wa_attempted ! i}"
    by (subst m, simp only: metrics.simps eqs, rule series_sum_pred) (simp_all add: ls)
  show "no_wa_but_calls_attempted m
        = card {i. i < df_len df \<and> (call_attempted ! i \<and> \<not> wa_attempted ! i)}"
    by (subst m, simp only: metrics.simps eqs, rule series_sum_pred) (simp_all add: la ls)
  show "total_leads m = df_len df"
    by (subst m) simp
next
  assume "length phone = 4"
  then show "wf_df (scenario_df phone)" by (rule scenario_wf)
next
  show "\<exists>m'. report L (scenario_df phone) ''CallAttempted'' ''CallConnected'' ''WaSent'' ''WaReceived''
                   = Inr m'
               \<and> connected_by_either m' = 2 \<and> only_connected_on_calls m' = 1
               \<and> only_connected_on_whatsapp m' = 1 \<and> connected_on_both m' = 0
               \<and> no_calls_attempted m' = 2 \<and> no_calls_but_wa_attempted m' = 1
               \<and> total_leads m' = 4"
    by (simp add: scenario_report)
next
  assume "\<not> df_empty df
        \<and> a \<noteq> ''-- select --'' \<and> c \<noteq> ''-- select --''
        \<and> s \<noteq> ''-- select --'' \<and> r \<noteq> ''-- select --''
        \<and> df_getitem df a = Some xa \<and> df_getitem df c = Some xc
        \<and> df_getitem df s = Some xs \<and> df_getitem df r = Some xr
        \<and> df_getitem df ''Phone Number'' = Some xp"
  then show "\<exists>m'. report L df a c s r = Inr m'"
    by (simp add: report_Inr_iff)
qed

lemma scenario_getitems:
  "df_getitem (scenario_df phone) ''CallAttempted'' = Some [IntV 1, IntV 1, IntV 0, IntV 0]"
  "df_getitem (scenario_df phone) ''CallConnected'' = Some [IntV 1, IntV 0, IntV 0, IntV 0]"
  "df_getitem (scenario_df phone) ''WaSent'' = Some [IntV 1, IntV 1, IntV 1, IntV 0]"
  "df_getitem (scenario_df phone) ''WaReceived'' = Some [IntV 0, IntV 1, IntV 0, IntV 0]"
  "df_getitem (scenario_df phone) ''Phone Number'' = Some phone"
  by (simp_all add: scenario_df_def df_getitem_def)

lemma scenario_duplicates:
  "series_sum (duplicated_keep_False [StrV ''555-1'', StrV ''555-1'', StrV ''555-2'', Missing]) = 2"
  by code_simp

theorem segment_counts_row_predicates_witness:
  "wf_df (scenario_df [StrV ''555-1'', StrV ''555-1'', StrV ''555-2'', Missing])
   \<and> df_getitem (scenario_df [StrV ''555-1'', StrV ''555-1'', StrV ''555-2'', Missing]) ''CallConnected''
        = Some [IntV 1, IntV 0, IntV 0, IntV 0]
   \<and> df_getitem (scenario_df [StrV ''555-1'', StrV ''555-1'', StrV ''555-2'', Missing]) ''WaReceived''
        = Some [IntV 0, IntV 1, IntV 0, IntV 0]
   \<and> report \<lparr>lib_strtod = (\<lambda>s. None), lib_repr = (\<lambda>x. [])\<rparr>
        (scenario_df [StrV ''555-1'', StrV ''555-1'', StrV ''555-2'', Missing])
        ''CallAttempted'' ''CallConnected'' ''WaSent'' ''WaReceived''
        = Inr \<lparr>connected_by_either = 2, only_connected_on_calls = 1,
               only_connected_on_calls_wa_attempted = 1, only_connected_on_whatsapp = 1,
               connected_on_both = 0, no_wa_and_calls_attempted = 1, no_calls_attempted = 2,
               no_calls_but_wa_attempted = 1, no_wa_attempted = 1, no_wa_but_calls_attempted = 0,
               total_leads = 4, duplicate_leads = 2\<rparr>
   \<and> card {i. i < df_len (scenario_df [StrV ''555-1'', StrV ''555-1'', StrV ''555-2'', Missing])
              \<and> (to_bool_series \<lparr>lib_strtod = (\<lambda>s. None), lib_repr = (\<lambda>x. [])\<rparr>
                [IntV 1, IntV 0, IntV 0, IntV 0] ! i
                   \<or> to_bool_series \<lparr>lib_strtod = (\<lambda>s. None), lib_repr = (\<lambda>x. [])\<rparr>
                [IntV 0, IntV 1, IntV 0, IntV 0] ! i)} = 2"
proof -
  let ?P = "[StrV ''555-1'', StrV ''555-1'', StrV ''555-2'', Missing]"
  let ?M = "\<lparr>connected_by_either = 2, only_connected_on_calls = 1,
               only_connected_on_calls_wa_attempted = 1, only_connected_on_whatsapp = 1,
               connected_on_both = 0, no_wa_and_calls_attempted = 1, no_calls_attempted = 2,
               no_calls_but_wa_attempted = 1, no_wa_attempted = 1, no_wa_but_calls_attempted = 0,
               total_leads = 4, duplicate_leads = (2::nat)\<rparr>"
  have w: "wf_df (scenario_df ?P)" by (rule scenario_wf) simp
  have r: "report \<lparr>lib_strtod = (\<lambda>s. None), lib_repr = (\<lambda>x. [])\<rparr>
        (scenario_df ?P) ''CallAttempted'' ''CallConnected'' ''WaSent'' ''WaReceived''
             = Inr ?M"
    by (simp add: scenario_report scenario_duplicates)
  from segment_counts_row_predicates
         [where L = "\<lparr>lib_strtod = (\<lambda>s. None), lib_repr = (\<lambda>x. [])\<rparr>" and df = "scenario_df ?P" and m = ?M
            and a = "''CallAttempted''" and xa = "[IntV 1, IntV 1, IntV 0, IntV 0]"
            and c = "''CallConnected''" and xc = "[IntV 1, IntV 0, IntV 0, IntV 0]"
            and s = "''WaSent''" and xs = "[IntV 1, IntV 1, IntV 1, IntV 0]"
            and r = "''WaReceived''" and xr = "[IntV 0, IntV 1, IntV 0, IntV 0]"
            and call_attempted = "to_bool_series \<lparr>lib_strtod = (\<lambda>s. None), lib_repr = (\<lambda>x. [])\<rparr> [IntV 1, IntV 1, IntV 0, IntV 0]"
            and call_connected = "to_bool_series \<lparr>lib_strtod = (\<lambda>s. None), lib_repr = (\<lambda>x. [])\<rparr> [IntV 1, IntV 0, IntV 0, IntV 0]"
            and wa_sent = "to_bool_series \<lparr>lib_strtod = (\<lambda>s. None), lib_repr = (\<lambda>x. [])\<rparr> [IntV 1, IntV 1, IntV 1, IntV 0]"
            and wa_received = "to_bool_series \<lparr>lib_strtod = (\<lambda>s. None), lib_repr = (\<lambda>x. [])\<rparr> [IntV 0, IntV 1, IntV 0, IntV 0]"
            and wa_attempted = "to_bool_series \<lparr>lib_strtod = (\<lambda>s. None), lib_repr = (\<lambda>x. [])\<rparr> [IntV 1, IntV 1, IntV 1, IntV 0]"
            and wa_connected = "to_bool_series \<lparr>lib_strtod = (\<lambda>s. None), lib_repr = (\<lambda>x. [])\<rparr> [IntV 0, IntV 1, IntV 0, IntV 0]"]
       w r scenario_getitems [of ?P]
  have "connected_by_either ?M
          = card {i. i < df_len (scenario_df ?P)
                \<and> (to_bool_series \<lparr>lib_strtod = (\<lambda>s. None), lib_repr = (\<lambda>x. [])\<rparr>
                [IntV 1, IntV 0, IntV 0, IntV 0] ! i
                     \<or> to_bool_series \<lparr>lib_strtod = (\<lambda>s. None), lib_repr = (\<lambda>x. [])\<rparr>
                [IntV 0, IntV 1, IntV 0, IntV 0] ! i)}"
    by blast
  with w r scenario_getitems [of ?P] show ?thesis by simp
qed

text \<open>
  C5.  Whenever the run on a well-formed dataset shows its counts, Connected by Either is
  at least Connected on Both, and Only Connected on Calls, Connected on Both, Only
  Connected on WhatsApp and the number of rows at which neither channel connected add up
  to Total Leads.
\<close>

theorem segment_sums_consistent:
  "wf_df df \<and> df_getitem df c = Some xc \<and> df_getitem df r = Some xr
   \<and> report L df a c s r = Inr m
   \<longrightarrow> connected_on_both m \<le> connected_by_either m
     \<and> only_connected_on_calls m + connected_on_both m + only_connected_on_whatsapp m
         + card {i. i < df_len df \<and> \<not> to_bool_series L xc ! i \<and> \<not> to_bool_series L xr ! i}
       = total_leads m"
proof (intro impI)
  assume h: "wf_df df \<and> df_getitem df c = Some xc \<and> df_getitem df r = Some xr
   \<and> report L df a c s r = Inr m"
  let ?cc = "to_bool_series L xc" and ?wr = "to_bool_series L xr"
  from h have "length xc = df_len df" "length xr = df_len df"
    by (blast intro: df_getitem_length)+
  then have lc: "length ?cc = df_len df" and lr: "length ?wr = df_len df"
    by (simp_all add: length_to_bool_series)
  from h have m: "connected_by_either m = series_sum (series_or ?cc ?wr)"
      "only_connected_on_calls m = series_sum (series_and ?cc (series_not ?wr))"
      "only_connected_on_whatsapp m = series_sum (series_and ?wr (series_not ?cc))"
      "connected_on_both m = series_sum (series_and ?cc ?wr)"
      "total_leads m = df_len df"
    by (auto simp: report_Inr_iff)
  have neither: "series_sum (series_and (series_not ?cc) (series_not ?wr))
      = card {i. i < df_len df \<and> \<not> ?cc ! i \<and> \<not> ?wr ! i}"
    by (rule series_sum_pred) (simp_all add: lc lr)
  have le: "connected_on_both m \<le> connected_by_either m"
    using both_le_either [of ?cc ?wr] by (simp add: m lc lr)
  have "only_connected_on_calls m + connected_on_both m + only_connected_on_whatsapp m
         + card {i. i < df_len df \<and> \<not> ?cc ! i \<and> \<not> ?wr ! i} = total_leads m"
    using four_way_partition [of ?cc ?wr] by (simp add: m lc lr neither)
  with le show "connected_on_both m \<le> connected_by_either m
     \<and> only_connected_on_calls m + connected_on_both m + only_connected_on_whatsapp m
         + card {i. i < df_len df \<and> \<not> ?cc ! i \<and> \<not> ?wr ! i}
       = total_leads m" by simp
qed

theorem segment_sums_consistent_witness:
  "wf_df (scenario_df [StrV ''555-1'', StrV ''555-1'', StrV ''555-2'', Missing])
   \<and> df_getitem (scenario_df [StrV ''555-1'', StrV ''555-1'', StrV ''555-2'', Missing]) ''CallConnected''
        = Some [IntV 1, IntV 0, IntV 0, IntV 0]
   \<and> df_getitem (scenario_df [StrV ''555-1'', StrV ''555-1'', StrV ''555-2'', Missing]) ''WaReceived''
        = Some [IntV 0, IntV 1, IntV 0, IntV 0]
   \<and> report \<lparr>lib_strtod = (\<lambda>s. None), lib_repr = (\<lambda>x. [])\<rparr>
        (scenario_df [StrV ''555-1'', StrV ''555-1'', StrV ''555-2'', Missing])
        ''CallAttempted'' ''CallConnected'' ''WaSent'' ''WaReceived''
        = Inr \<lparr>connected_by_either = 2, only_connected_on_calls = 1,
               only_connected_on_calls_wa_attempted = 1, only_connected_on_whatsapp = 1,
               connected_on_both = 0, no_wa_and_calls_attempted = 1, no_calls_attempted = 2,
               no_calls_but_wa_attempted = 1, no_wa_attempted = 1, no_wa_but_calls_attempted = 0,
               total_leads = 4, duplicate_leads = 2\<rparr>
   \<and> card {i. i < df_len (scenario_df [StrV ''555-1'', StrV ''555-1'', StrV ''555-2'', Missing])
              \<and> \<not> to_bool_series \<lparr>lib_strtod = (\<lambda>s. None), lib_repr = (\<lambda>x. [])\<rparr>
                [IntV 1, IntV 0, IntV 0, IntV 0] ! i
              \<and> \<not> to_bool_series \<lparr>lib_strtod = (\<lambda>s. None), lib_repr = (\<lambda>x. [])\<rparr>
                [IntV 0, IntV 1, IntV 0, IntV 0] ! i} = 2"
proof -
  let ?P = "[StrV ''555-1'', StrV ''555-1'', StrV ''555-2'', Missing]"
  let ?M = "\<lparr>connected_by_either = 2, only_connected_on_calls = 1,
               only_connected_on_calls_wa_attempted = 1, only_connected_on_whatsapp = 1,
               connected_on_both = 0, no_wa_and_calls_attempted = 1, no_calls_attempted = 2,
               no_calls_but_wa_attempted = 1, no_wa_attempted = 1, no_wa_but_calls_attempted = 0,
               total_leads = 4, duplicate_leads = (2::nat)\<rparr>"
  have w: "wf_df (scenario_df ?P)" by (rule scenario_wf) simp
  have r: "report \<lparr>lib_strtod = (\<lambda>s. None), lib_repr = (\<lambda>x. [])\<rparr>
        (scenario_df ?P) ''CallAttempted'' ''CallConnected'' ''WaSent'' ''WaReceived''
             = Inr ?M"
    by (simp add: scenario_report scenario_duplicates)
  from segment_sums_consistent
         [where L = "\<lparr>lib_strtod = (\<lambda>s. None), lib_repr = (\<lambda>x. [])\<rparr>" and df = "scenario_df ?P" and m = ?M
            and c = "''CallConnected''" and xc = "[IntV 1, IntV 0, IntV 0, IntV 0]"
            and r = "''WaReceived''" and xr = "[IntV 0, IntV 1, IntV 0, IntV 0]"
            and a = "''CallAttempted''" and s = "''WaSent''"]
       w r scenario_getitems [of ?P]
  have "only_connected_on_calls ?M + connected_on_both ?M + only_connected_on_whatsapp ?M
         + card {i. i < df_len (scenario_df ?P)
              \<and> \<not> to_bool_series \<lparr>lib_strtod = (\<lambda>s. None), lib_repr = (\<lambda>x. [])\<rparr>
                [IntV 1, IntV 0, IntV 0, IntV 0] ! i
              \<and> \<not> to_bool_series \<lparr>lib_strtod = (\<lambda>s. None), lib_repr = (\<lambda>x. [])\<rparr>
                [IntV 0, IntV 1, IntV 0, IntV 0] ! i}
       = total_leads ?M"
    by blast
  with w r scenario_getitems [of ?P] show ?thesis by simp
qed

text \<open>
  C10.  Whenever the run on a well-formed dataset shows its counts, they nest as the
  displayed hierarchy does: No Calls Attempted is Neither Attempted plus No Calls
  Attempted but WhatsApp Attempted; No WhatsApp Attempted is Neither Attempted plus No
  WhatsApp but Calls Attempted; and Only Connected on Calls and WhatsApp Also Got
  Attempted never exceeds Only Connected on Calls.
\<close>

theorem segment_hierarchy_nesting:
  "wf_df df \<and> report L df a c s r = Inr m
   \<longrightarrow> no_calls_attempted m = no_wa_and_calls_attempted m + no_calls_but_wa_attempted m
     \<and> no_wa_attempted m = no_wa_and_calls_attempted m + no_wa_but_calls_attempted m
     \<and> only_connected_on_calls_wa_attempted m \<le> only_connected_on_calls m"
proof (intro impI)
  assume h: "wf_df df \<and> report L df a c s r = Inr m"
  then obtain xa xc xs xr where g: "df_getitem df a = Some xa" "df_getitem df c = Some xc"
      "df_getitem df s = Some xs" "df_getitem df r = Some xr"
    and m: "no_calls_attempted m = series_sum (series_not (to_bool_series L xa))"
      "no_wa_and_calls_attempted m
         = series_sum (series_and (series_not (to_bool_series L xa)) (series_not (to_bool_series L xs)))"
      "no_calls_but_wa_attempted m
         = series_sum (series_and (series_not (to_bool_series L xa)) (to_bool_series L xs))"
      "no_wa_attempted m = series_sum (series_not (to_bool_series L xs))"
      "no_wa_but_calls_attempted m
         = series_sum (series_and (to_bool_series L xa) (series_not (to_bool_series L xs)))"
      "only_connected_on_calls_wa_attempted m
         = series_sum (series_and (series_and (to_bool_series L xc) (to_bool_series L xs))
                                  (series_not (to_bool_series L xr)))"
      "only_connected_on_calls m
         = series_sum (series_and (to_bool_series L xc) (series_not (to_bool_series L xr)))"
    by (auto simp: report_Inr_iff)
  let ?ca = "to_bool_series L xa" and ?cc = "to_bool_series L xc"
  let ?ws = "to_bool_series L xs" and ?wr = "to_bool_series L xr"
  from h g have "length xa = df_len df" "length xc = df_len df"
      "length xs = df_len df" "length xr = df_len df"
    by (blast intro: df_getitem_length)+
  then have l: "length ?ca = df_len df" "length ?cc = df_len df"
      "length ?ws = df_len df" "length ?wr = df_len df"
    by (simp_all add: length_to_bool_series)
  have 1: "no_calls_attempted m = no_wa_and_calls_attempted m + no_calls_but_wa_attempted m"
    using split_by_second [of "series_not ?ca" ?ws] by (simp add: m l)
  have 2: "no_wa_attempted m = no_wa_and_calls_attempted m + no_wa_but_calls_attempted m"
    using not_split_not [of ?ca ?ws] by (simp add: m l)
  have 3: "only_connected_on_calls_wa_attempted m \<le> only_connected_on_calls m"
    using and_third_le [of ?cc ?ws ?wr] by (simp add: m l)
  from 1 2 3 show "no_calls_attempted m = no_wa_and_calls_attempted m + no_calls_but_wa_attempted m
     \<and> no_wa_attempted m = no_wa_and_calls_attempted m + no_wa_but_calls_attempted m
     \<and> only_connected_on_calls_wa_attempted m \<le> only_connected_on_calls m" by simp
qed

theorem segment_hierarchy_nesting_witness:
  "wf_df (scenario_df [StrV ''555-1'', StrV ''555-1'', StrV ''555-2'', Missing])
   \<and> report \<lparr>lib_strtod = (\<lambda>s. None), lib_repr = (\<lambda>x. [])\<rparr>
        (scenario_df [StrV ''555-1'', StrV ''555-1'', StrV ''555-2'', Missing])
        ''CallAttempted'' ''CallConnected'' ''WaSent'' ''WaReceived''
        = Inr \<lparr>connected_by_either = 2, only_connected_on_calls = 1,
               only_connected_on_calls_wa_attempted = 1, only_connected_on_whatsapp = 1,
               connected_on_both = 0, no_wa_and_calls_attempted = 1, no_calls_attempted = 2,
               no_calls_but_wa_attempted = 1, no_wa_attempted = 1, no_wa_but_calls_attempted = 0,
               total_leads = 4, duplicate_leads = 2\<rparr>
   \<and> (2::nat) = 1 + 1 \<and> (1::nat) = 1 + 0 \<and> (1::nat) \<le> 1"
proof -
  let ?P = "[StrV ''555-1'', StrV ''555-1'', StrV ''555-2'', Missing]"
  let ?M = "\<lparr>connected_by_either = 2, only_connected_on_calls = 1,
               only_connected_on_calls_wa_attempted = 1, only_connected_on_whatsapp = 1,
               connected_on_both = 0, no_wa_and_calls_attempted = 1, no_calls_attempted = 2,
               no_calls_but_wa_attempted = 1, no_wa_attempted = 1, no_wa_but_calls_attempted = 0,
               total_leads = 4, duplicate_leads = (2::nat)\<rparr>"
  have w: "wf_df (scenario_df ?P)" by (rule scenario_wf) simp
  have r: "report \<lparr>lib_strtod = (\<lambda>s. None), lib_repr = (\<lambda>x. [])\<rparr>
        (scenario_df ?P) ''CallAttempted'' ''CallConnected'' ''WaSent'' ''WaReceived''
             = Inr ?M"
    by (simp add: scenario_report scenario_duplicates)
  from segment_hierarchy_nesting
         [where L = "\<lparr>lib_strtod = (\<lambda>s. None), lib_repr = (\<lambda>x. [])\<rparr>" and df = "scenario_df ?P" and m = ?M
            and a = "''CallAttempted''" and c = "''CallConnected''"
            and s = "''WaSent''" and r = "''WaReceived''"]
       w r
  have "no_calls_attempted ?M = no_wa_and_calls_attempted ?M + no_calls_but_wa_attempted ?M
     \<and> no_wa_attempted ?M = no_wa_and_calls_attempted ?M + no_wa_but_calls_attempted ?M
     \<and> only_connected_on_calls_wa_attempted ?M \<le> only_connected_on_calls ?M"
    by blast
  with w r show ?thesis by simp
qed

section \<open>Properties of the duplicate count\<close>

text \<open>
  C6.  On a well-formed dataset with the column \<open>Phone Number\<close>, Duplicate Leads is the
  number of rows whose value in that column equals the value of some other row, so that
  every member of every group of two or more equal values is counted.  Values are equal
  as Python values: a boolean equals the number 1 or 0, and two missing values are
  equal.  The phone numbers \<open>555-1\<close>, \<open>555-1\<close>, \<open>555-2\<close> give Duplicate Leads = 2.
\<close>

theorem duplicate_leads_counts_shared_values:
  "(wf_df df \<and> df_getitem df ''Phone Number'' = Some phone
    \<longrightarrow> count_duplicate_leads df
          = Inr (card {i. i < df_len df
                  \<and> (\<exists>j < df_len df. j \<noteq> i \<and> py_key (phone ! j) = py_key (phone ! i))})
      \<and> (report L df a c s r = Inr m
           \<longrightarrow> duplicate_leads m
                 = card {i. i < df_len df
                     \<and> (\<exists>j < df_len df. j \<noteq> i \<and> py_key (phone ! j) = py_key (phone ! i))}))
   \<and> (py_key (StrV x) = py_key (StrV y) \<longleftrightarrow> x = y)
   \<and> count_duplicate_leads
        \<lparr>df_len = 3, df_cols = [(''Phone Number'', [StrV ''555-1'', StrV ''555-1'', StrV ''555-2''])]\<rparr>
       = Inr 2"
proof (intro conjI impI)
  assume h: "wf_df df \<and> df_getitem df ''Phone Number'' = Some phone"
  then show c: "count_duplicate_leads df
          = Inr (card {i. i < df_len df
                  \<and> (\<exists>j < df_len df. j \<noteq> i \<and> py_key (phone ! j) = py_key (phone ! i))})"
    by (simp add: count_duplicate_leads_card)
  assume "report L df a c s r = Inr m"
  then have "count_duplicate_leads df = Inr (duplicate_leads m)"
    by (auto simp: report_Inr_iff count_duplicate_leads_def select_rows_def series_sum_def)
  with c show "duplicate_leads m
                 = card {i. i < df_len df
                     \<and> (\<exists>j < df_len df. j \<noteq> i \<and> py_key (phone ! j) = py_key (phone ! i))}"
    by simp
next
  show "py_key (StrV x) = py_key (StrV y) \<longleftrightarrow> x = y" by simp
next
  show "count_duplicate_leads
        \<lparr>df_len = 3, df_cols = [(''Phone Number'', [StrV ''555-1'', StrV ''555-1'', StrV ''555-2''])]\<rparr>
       = Inr 2"
    by code_simp
qed

theorem duplicate_leads_counts_shared_values_witness:
  "wf_df (scenario_df [StrV ''555-1'', StrV ''555-1'', StrV ''555-2'', Missing])
   \<and> df_getitem (scenario_df [StrV ''555-1'', StrV ''555-1'', StrV ''555-2'', Missing]) ''Phone Number''
        = Some [StrV ''555-1'', StrV ''555-1'', StrV ''555-2'', Missing]
   \<and> count_duplicate_leads (scenario_df [StrV ''555-1'', StrV ''555-1'', StrV ''555-2'', Missing])
        = Inr 2
   \<and> card {i. i < df_len (scenario_df [StrV ''555-1'', StrV ''555-1'', StrV ''555-2'', Missing])
          \<and> (\<exists>j < df_len (scenario_df [StrV ''555-1'', StrV ''555-1'', StrV ''555-2'', Missing]).
                j \<noteq> i
                \<and> py_key ([StrV ''555-1'', StrV ''555-1'', StrV ''555-2'', Missing] ! j)
                    = py_key ([StrV ''555-1'', StrV ''555-1'', StrV ''555-2'', Missing] ! i))} = 2"
proof -
  let ?P = "[StrV ''555-1'', StrV ''555-1'', StrV ''555-2'', Missing]"
  have w: "wf_df (scenario_df ?P)" by (rule scenario_wf) simp
  have g: "df_getitem (scenario_df ?P) ''Phone Number'' = Some ?P"
    by (rule scenario_getitems)
  have d: "count_duplicate_leads (scenario_df ?P) = Inr 2"
    using scenario_duplicates
    by (simp add: count_duplicate_leads_def g select_rows_def series_sum_def)
  from duplicate_leads_counts_shared_values [where df = "scenario_df ?P" and phone = ?P] w g
  have "count_duplicate_leads (scenario_df ?P)
          = Inr (card {i. i < df_len (scenario_df ?P)
                  \<and> (\<exists>j < df_len (scenario_df ?P). j \<noteq> i \<and> py_key (?P ! j) = py_key (?P ! i))})"
    by blast
  with w g d show ?thesis by simp
qed

text \<open>
  C9.  On every dataset without the column \<open>Phone Number\<close> the lookup of the duplicate
  count fails with a \<open>KeyError\<close>, and the run shows no counts whatever the selections
  are: it ends in an error.  When the dataset is not empty and the mapping is complete,
  that error is the \<open>KeyError\<close> of the lookup.
\<close>

theorem missing_phone_column_fails:
  "''Phone Number'' \<notin> fst ` set (df_cols df)
   \<longrightarrow> count_duplicate_leads df = Inl (KeyError ''Phone Number'')
     \<and> (\<exists>e. report L df a c s r = Inl e)
     \<and> (\<not> df_empty df
         \<and> a \<noteq> ''-- select --'' \<and> c \<noteq> ''-- select --''
         \<and> s \<noteq> ''-- select --'' \<and> r \<noteq> ''-- select --''
         \<and> a \<in> fst ` set (df_cols df) \<and> c \<in> fst ` set (df_cols df)
         \<and> s \<in> fst ` set (df_cols df) \<and> r \<in> fst ` set (df_cols df)
        \<longrightarrow> report L df a c s r = Inl (KeyError ''Phone Number''))"
proof (intro impI conjI)
  assume h: "''Phone Number'' \<notin> fst ` set (df_cols df)"
  then have none: "df_getitem df ''Phone Number'' = None"
    by (simp add: df_getitem_def map_of_eq_None_iff)
  then show k: "count_duplicate_leads df = Inl (KeyError ''Phone Number'')"
    by (simp add: count_duplicate_leads_def)
  have "report L df a c s r \<noteq> Inr m" for m
    using none by (simp add: report_Inr_iff)
  then show "\<exists>e. report L df a c s r = Inl e"
    by (cases "report L df a c s r") auto
  assume g: "\<not> df_empty df
         \<and> a \<noteq> ''-- select --'' \<and> c \<noteq> ''-- select --''
         \<and> s \<noteq> ''-- select --'' \<and> r \<noteq> ''-- select --''
         \<and> a \<in> fst ` set (df_cols df) \<and> c \<in> fst ` set (df_cols df)
         \<and> s \<in> fst ` set (df_cols df) \<and> r \<in> fst ` set (df_cols df)"
  then obtain xa xc xs xr where "df_getitem df a = Some xa" "df_getitem df c = Some xc"
      "df_getitem df s = Some xs" "df_getitem df r = Some xr"
    unfolding df_getitem_def by (metis map_of_eq_None_iff not_Some_eq)
  with g k show "report L df a c s r = Inl (KeyError ''Phone Number'')"
    by (simp add: report_def booleans_def Let_def)
qed

theorem missing_phone_column_fails_witness:
  "''Phone Number'' \<notin> {''Attempted''}
   \<and> report \<lparr>lib_strtod = (\<lambda>s. None), lib_repr = (\<lambda>x. [])\<rparr>
        \<lparr>df_len = 2, df_cols = [(''Attempted'', [IntV 1, IntV 0])]\<rparr>
        ''Attempted'' ''Attempted'' ''Attempted'' ''Attempted''
       = Inl (KeyError ''Phone Number'')
   \<and> report \<lparr>lib_strtod = (\<lambda>s. None), lib_repr = (\<lambda>x. [])\<rparr>
        \<lparr>df_len = 2, df_cols = [(''Attempted'', [IntV 1, IntV 0])]\<rparr>
        ''Attempted'' ''Attempted'' ''-- select --'' ''Attempted''
       = Inl (PleaseSelect [''WhatsApp Sent''])"
proof -
  let ?D = "\<lparr>df_len = 2, df_cols = [(''Attempted'', [IntV 1, IntV 0])]\<rparr>"
  have h: "''Phone Number'' \<notin> fst ` set (df_cols ?D)" by simp
  have e: "\<not> df_empty ?D" by (simp add: df_empty_def)
  have p: "report \<lparr>lib_strtod = (\<lambda>s. None), lib_repr = (\<lambda>x. [])\<rparr>
        ?D ''Attempted'' ''Attempted'' ''-- select --'' ''Attempted''
       = Inl (PleaseSelect [''WhatsApp Sent''])"
    by (simp add: report_def df_empty_def)
  from missing_phone_column_fails
         [where L = "\<lparr>lib_strtod = (\<lambda>s. None), lib_repr = (\<lambda>x. [])\<rparr>" and df = ?D
            and a = "''Attempted''" and c = "''Attempted''"
            and s = "''Attempted''" and r = "''Attempted''"] h e
  have "report \<lparr>lib_strtod = (\<lambda>s. None), lib_repr = (\<lambda>x. [])\<rparr>
        ?D ''Attempted'' ''Attempted'' ''Attempted'' ''Attempted''
          = Inl (KeyError ''Phone Number'')"
    by simp
  with p show ?thesis by simp
qed

end
